theory Spec2Isabelle
  imports Complex_Main "HOL-Library.Sublist"
begin

section \<open>JavaScript values\<close>

text \<open>
  A JavaScript number is a double: a finite value (a real here; rounding is not modelled,
  no property below depends on it), one of the two infinities, or NaN.
\<close>

datatype jsnum = Fin real | PosInf | NegInf | NaN

text \<open>
  The values the code handles: what \<^verbatim>\<open>JSON.parse\<close> returns, and \<^verbatim>\<open>undefined\<close>.
  An object is the list of its own properties; a lookup takes the first binding of a key.
  A character stands for the UTF-16 code unit of the same value (U+0000 to U+00FF).
\<close>

datatype jsval =
    JUndefined
  | JNull
  | JBool bool
  | JNum jsnum
  | JStr string
  | JArr "jsval list"
  | JObj "(string \<times> jsval) list"

text \<open>\<^verbatim>\<open>typeof v\<close>\<close>

fun typeof :: "jsval \<Rightarrow> string" where
  "typeof JUndefined = ''undefined''"
| "typeof JNull = ''object''"
| "typeof (JBool b) = ''boolean''"
| "typeof (JNum n) = ''number''"
| "typeof (JStr s) = ''string''"
| "typeof (JArr xs) = ''object''"
| "typeof (JObj fs) = ''object''"

text \<open>Truthiness: what \<^verbatim>\<open>!v\<close> and \<^verbatim>\<open>v && ...\<close> test.\<close>

fun truthy :: "jsval \<Rightarrow> bool" where
  "truthy JUndefined = False"
| "truthy JNull = False"
| "truthy (JBool b) = b"
| "truthy (JNum n) = (n \<noteq> Fin 0 \<and> n \<noteq> NaN)"
| "truthy (JStr s) = (s \<noteq> [])"
| "truthy (JArr xs) = True"
| "truthy (JObj fs) = True"

text \<open>
  \<^verbatim>\<open>v.k\<close> for a key that no prototype defines: the own property, else \<^verbatim>\<open>undefined\<close>.
  The code reads properties only behind a guard that excludes \<^verbatim>\<open>null\<close> and
  \<^verbatim>\<open>undefined\<close>, where the read would throw.
\<close>

fun get_prop :: "jsval \<Rightarrow> string \<Rightarrow> jsval" where
  "get_prop (JObj fs) k = (case map_of fs k of None \<Rightarrow> JUndefined | Some v \<Rightarrow> v)"
| "get_prop v k = JUndefined"

fun isArray :: "jsval \<Rightarrow> bool" where
  "isArray (JArr xs) = True"
| "isArray v = False"

text \<open>\<^verbatim>\<open>a === b\<close> on numbers: NaN equals nothing, itself included.\<close>

definition strict_eq :: "jsnum \<Rightarrow> jsnum \<Rightarrow> bool" where
  "strict_eq a b \<longleftrightarrow> a \<noteq> NaN \<and> b \<noteq> NaN \<and> a = b"

text \<open>\<^verbatim>\<open>a <= 0\<close> on numbers.\<close>

fun le_zero :: "jsnum \<Rightarrow> bool" where
  "le_zero (Fin x) = (x \<le> 0)"
| "le_zero PosInf = False"
| "le_zero NegInf = True"
| "le_zero NaN = False"

section \<open>Strings\<close>

text \<open>
  White space as \<^verbatim>\<open>\s\<close> and \<^verbatim>\<open>trim()\<close> see it, in the range modelled: tab, line feed,
  vertical tab, form feed, carriage return, space, no-break space.
\<close>

definition is_space :: "char \<Rightarrow> bool" where
  "is_space c \<longleftrightarrow> c \<in> {CHR 0x09, CHR 0x0A, CHR 0x0B, CHR 0x0C, CHR 0x0D, CHR 0x20, CHR 0xA0}"

text \<open>The line terminators, which \<^verbatim>\<open>.\<close> in a regular expression does not match.\<close>

definition is_line_terminator :: "char \<Rightarrow> bool" where
  "is_line_terminator c \<longleftrightarrow> c \<in> {CHR 0x0A, CHR 0x0D}"

definition trim :: "string \<Rightarrow> string" where
  "trim s = rev (dropWhile is_space (rev (dropWhile is_space s)))"

text \<open>
  \<^verbatim>\<open>toLowerCase()\<close>: A to Z, and the Latin-1 capitals U+00C0 to U+00DE without the
  multiplication sign U+00D7, move up by 32.
\<close>

definition lower_char :: "char \<Rightarrow> char" where
  "lower_char c =
     (let n = (of_char c :: nat)
      in if (65 \<le> n \<and> n \<le> 90) \<or> (192 \<le> n \<and> n \<le> 222 \<and> n \<noteq> 215)
         then char_of (n + 32) else c)"

definition toLowerCase :: "string \<Rightarrow> string" where
  "toLowerCase s = map lower_char s"

text \<open>\<^verbatim>\<open>s.includes(w)\<close>: \<open>w\<close> starts at some position of \<open>s\<close>.\<close>

fun string_includes :: "string \<Rightarrow> string \<Rightarrow> bool" where
  "string_includes [] w = (w = [])"
| "string_includes (c # cs) w = (prefix w (c # cs) \<or> string_includes cs w)"

section \<open>Validation (validation.js)\<close>

definition MIN_LENGTH :: nat where
  "MIN_LENGTH = 1"

definition MAX_LENGTH :: nat where
  "MAX_LENGTH = 200"

definition FORBIDDEN_WORDS :: "string list" where
  "FORBIDDEN_WORDS = [''script'', ''javascript'', ''onload'', ''onerror'', ''onclick'']"

text \<open>
  The character class of \<^verbatim>\<open>ALLOWED_CHARS\<close>: letters, digits, \<^verbatim>\<open>\s\<close> and the listed
  punctuation.
\<close>

definition allowed_char :: "char \<Rightarrow> bool" where
  "allowed_char c \<longleftrightarrow>
     (let n = (of_char c :: nat)
      in (97 \<le> n \<and> n \<le> 122) \<or> (65 \<le> n \<and> n \<le> 90) \<or> (48 \<le> n \<and> n \<le> 57)
         \<or> is_space c
         \<or> c \<in> set (''-_.,!?@#$%&*()+=:;'' @ [CHR 0x22, CHR 0x27] @ ''<>[]{}|'' @ [CHR 0x5C] @ ''/~`''))"

text \<open>\<^verbatim>\<open>ALLOWED_CHARS.test(s)\<close>: one character or more, each of the class.\<close>

definition ALLOWED_CHARS_test :: "string \<Rightarrow> bool" where
  "ALLOWED_CHARS_test s \<longleftrightarrow> s \<noteq> [] \<and> list_all allowed_char s"

text \<open>\<^verbatim>\<open>/\s{3,}/.test(s)\<close>: the scan tries each position in turn.\<close>

fun whitespace_run_test :: "string \<Rightarrow> bool" where
  "whitespace_run_test (a # b # c # s) =
     ((is_space a \<and> is_space b \<and> is_space c) \<or> whitespace_run_test (b # c # s))"
| "whitespace_run_test s = False"

text \<open>\<^verbatim>\<open>/(.)\1{4,}/.test(s)\<close>: a character that is no line terminator, four more times.\<close>

fun repeated_char_test :: "string \<Rightarrow> bool" where
  "repeated_char_test (a # b # c # d # e # s) =
     ((\<not> is_line_terminator a \<and> b = a \<and> c = a \<and> d = a \<and> e = a)
      \<or> repeated_char_test (b # c # d # e # s))"
| "repeated_char_test s = False"

text \<open>The object \<^verbatim>\<open>{isValid, message, sanitizedText}\<close>; a failure carries no text.\<close>

record validation =
  isValid :: bool
  message :: string
  sanitizedText :: "string option"

definition invalid :: "string \<Rightarrow> validation" where
  "invalid m = \<lparr>isValid = False, message = m, sanitizedText = None\<rparr>"

definition validateTaskText :: "jsval \<Rightarrow> validation" where
  "validateTaskText input =
     (if \<not> truthy input \<or> typeof input \<noteq> ''string''
      then invalid ''Please enter a task description''
      else case input of
        JStr s \<Rightarrow>
          (let trimmedText = trim s in
           if length trimmedText < MIN_LENGTH
           then invalid ''Task description cannot be empty''
           else if length trimmedText > MAX_LENGTH
           then invalid ''Task description cannot exceed 200 characters''
           else if \<not> ALLOWED_CHARS_test trimmedText
           then invalid ''Task description contains invalid characters''
           else if list_ex (string_includes (toLowerCase trimmedText)) FORBIDDEN_WORDS
           then invalid ''Task description contains forbidden content''
           else if whitespace_run_test trimmedText
           then invalid ''Task description contains excessive whitespace''
           else if repeated_char_test trimmedText
           then invalid ''Task description contains too many repeated characters''
           else \<lparr>isValid = True, message = '''', sanitizedText = Some trimmedText\<rparr>)
      | _ \<Rightarrow> invalid ''Please enter a task description'')"

text \<open>
  The task objects the application holds have passed the shape test of \<open>loadTasks\<close> or
  were built by \<open>createTask\<close>: \<^verbatim>\<open>id\<close> is a number, \<^verbatim>\<open>text\<close> a string, \<^verbatim>\<open>completed\<close> a
  boolean. Every other own property, \<^verbatim>\<open>createdAt\<close> among them, is kept in \<open>others\<close>.
\<close>

record task =
  task_id :: jsnum
  task_text :: string
  completed :: bool
  others :: "(string \<times> jsval) list"

definition createdAt :: "task \<Rightarrow> jsval" where
  "createdAt t = (case map_of (others t) ''createdAt'' of None \<Rightarrow> JUndefined | Some v \<Rightarrow> v)"

text \<open>
  \<open>validateTaskObject\<close> answers \<^verbatim>\<open>{isValid: false, message}\<close> (here \<open>Inl message\<close>) or
  \<^verbatim>\<open>{isValid: true, sanitizedTask}\<close> (here \<open>Inr sanitizedTask\<close>). The \<^verbatim>\<open>typeof\<close> tests
  of the source hold by the types of the record; the comparisons remain. A validation
  that says valid carries its text, so the last case does not arise.
\<close>

definition validateTaskObject :: "task \<Rightarrow> string + task" where
  "validateTaskObject t =
     (if le_zero (task_id t) then Inl ''Task must have a valid ID''
      else if length (trim (task_text t)) = 0 then Inl ''Task must have a valid text description''
      else let textValidation = validateTaskText (JStr (task_text t)) in
        if \<not> isValid textValidation then Inl (message textValidation)
        else case sanitizedText textValidation of
          Some s \<Rightarrow> Inr (t\<lparr>task_text := s\<rparr>)
        | None \<Rightarrow> Inl (message textValidation))"

record duplicate_check =
  hasDuplicates :: bool
  duplicates :: "task list"

definition checkForDuplicates :: "string \<Rightarrow> task list \<Rightarrow> duplicate_check" where
  "checkForDuplicates newTaskText existingTasks =
     (let normalizedNewText = toLowerCase (trim newTaskText);
          dups = filter (\<lambda>t. toLowerCase (trim (task_text t)) = normalizedNewText) existingTasks
      in \<lparr>hasDuplicates = length dups > 0, duplicates = dups\<rparr>)"

section \<open>The view (render.js)\<close>

text \<open>The \<^verbatim>\<open>switch\<close> compares with \<^verbatim>\<open>===\<close>: only the two strings select a sub-list.\<close>

definition filterTasks :: "task list \<Rightarrow> jsval \<Rightarrow> task list" where
  "filterTasks ts f =
     (if f = JStr ''active'' then filter (\<lambda>t. \<not> completed t) ts
      else if f = JStr ''completed'' then filter (\<lambda>t. completed t) ts
      else ts)"

section \<open>Persistence (storage.js)\<close>

text \<open>
  A stored string is represented by what \<^verbatim>\<open>JSON.parse\<close> makes of it: the empty string,
  a non-empty string that \<^verbatim>\<open>JSON.parse\<close> rejects with a SyntaxError, or a string
  that it accepts, with the value it returns.
\<close>

datatype payload = Empty_text | Malformed_text | Json_text jsval

fun JSON_parse :: "payload \<Rightarrow> jsval option" where
  "JSON_parse Empty_text = None"
| "JSON_parse Malformed_text = None"
| "JSON_parse (Json_text v) = Some v"

text \<open>
  What \<^verbatim>\<open>JSON.stringify\<close> writes reads back as the value itself, except that a number
  that is not finite is written as \<^verbatim>\<open>null\<close>, \<^verbatim>\<open>undefined\<close> in an array is written as
  \<^verbatim>\<open>null\<close>, and a property whose value is \<^verbatim>\<open>undefined\<close> is left out.
\<close>

fun written :: "jsval \<Rightarrow> jsval" where
  "written JUndefined = JNull"
| "written JNull = JNull"
| "written (JBool b) = JBool b"
| "written (JNum n) = (case n of Fin x \<Rightarrow> JNum (Fin x) | _ \<Rightarrow> JNull)"
| "written (JStr s) = JStr s"
| "written (JArr xs) = JArr (map written xs)"
| "written (JObj fs) =
     JObj (map (\<lambda>(k, v). (k, written v)) (filter (\<lambda>(k, v). v \<noteq> JUndefined) fs))"

definition JSON_stringify :: "jsval \<Rightarrow> payload" where
  "JSON_stringify v = Json_text (written v)"

text \<open>\<open>localStorage\<close>: keys to stored strings.\<close>

type_synonym storage = "string \<Rightarrow> payload option"

definition STORAGE_KEY :: string where
  "STORAGE_KEY = ''taskflow_tasks''"

definition STORAGE_VERSION :: string where
  "STORAGE_VERSION = ''1.0''"

text \<open>A task as the object it is, and an object that passed the shape test as a task.\<close>

definition obj_of_task :: "task \<Rightarrow> jsval" where
  "obj_of_task t =
     JObj ((''id'', JNum (task_id t)) # (''text'', JStr (task_text t))
           # (''completed'', JBool (completed t)) # others t)"

definition as_task :: "jsval \<Rightarrow> task" where
  "as_task v =
     \<lparr>task_id = (case get_prop v ''id'' of JNum n \<Rightarrow> n | _ \<Rightarrow> NaN),
      task_text = (case get_prop v ''text'' of JStr s \<Rightarrow> s | _ \<Rightarrow> []),
      completed = (case get_prop v ''completed'' of JBool b \<Rightarrow> b | _ \<Rightarrow> False),
      others = (case v of
                  JObj fs \<Rightarrow> filter (\<lambda>(k, x). k \<notin> {''id'', ''text'', ''completed''}) fs
                | _ \<Rightarrow> [])\<rparr>"

text \<open>The predicate of the \<^verbatim>\<open>filter\<close> in \<open>loadTasks\<close>.\<close>

definition is_task_like :: "jsval \<Rightarrow> bool" where
  "is_task_like v \<longleftrightarrow>
     truthy v \<and> typeof v = ''object''
     \<and> typeof (get_prop v ''id'') = ''number''
     \<and> typeof (get_prop v ''text'') = ''string''
     \<and> typeof (get_prop v ''completed'') = ''boolean''"

fun elements :: "jsval \<Rightarrow> jsval list" where
  "elements (JArr xs) = xs"
| "elements v = []"

text \<open>
  What \<^verbatim>\<open>localStorage.setItem\<close> does when called: it stores the string, or throws a
  QuotaExceededError, or throws another error.
\<close>

datatype write_result = Stored | QuotaExceeded | WriteFailure

text \<open>
  What the environment answers during one \<open>saveTasks\<close>: \<^verbatim>\<open>Date.now()\<close> and the outcome
  of \<^verbatim>\<open>setItem\<close>, at the first attempt and at the retry.
\<close>

record save_env =
  save_now :: real
  save_write :: write_result
  retry_now :: real
  retry_write :: write_result

definition dataToStore :: "real \<Rightarrow> task list \<Rightarrow> jsval" where
  "dataToStore now ts =
     JObj [(''version'', JStr STORAGE_VERSION), (''timestamp'', JNum (Fin now)),
           (''tasks'', JArr (map obj_of_task ts))]"

text \<open>\<^verbatim>\<open>!storedData\<close> on the result of \<^verbatim>\<open>getItem\<close>: no entry, or the empty string.\<close>

fun absent :: "payload option \<Rightarrow> bool" where
  "absent None = True"
| "absent (Some p) = (p = Empty_text)"

definition saveTasks :: "save_env \<Rightarrow> task list \<Rightarrow> storage \<Rightarrow> bool \<times> storage" where
  "saveTasks e ts ls =
     (case save_write e of
        Stored \<Rightarrow>
          (let ls' = ls(STORAGE_KEY \<mapsto> JSON_stringify (dataToStore (save_now e) ts))
           in if absent (ls' STORAGE_KEY) then (False, ls') else (True, ls'))
      | QuotaExceeded \<Rightarrow>
          (case retry_write e of
             Stored \<Rightarrow>
               (True, Map.empty(STORAGE_KEY \<mapsto> JSON_stringify (dataToStore (retry_now e) ts)))
           | _ \<Rightarrow> (False, Map.empty))
      | WriteFailure \<Rightarrow> (False, ls))"

text \<open>
  \<open>loadTasks\<close> returns the tasks and leaves a storage. Every exception is caught inside
  it, so it returns in every case; the exception that the calls modelled here raise is
  the SyntaxError of \<^verbatim>\<open>JSON.parse\<close>, after which the slot is removed.
\<close>

definition loadTasks :: "storage \<Rightarrow> task list \<times> storage" where
  "loadTasks ls =
     (case ls STORAGE_KEY of
        None \<Rightarrow> ([], ls)
      | Some storedData \<Rightarrow>
          if absent (Some storedData) then ([], ls)
          else case JSON_parse storedData of
            None \<Rightarrow> ([], ls(STORAGE_KEY := None))
          | Some parsedData \<Rightarrow>
              if \<not> truthy parsedData \<or> typeof parsedData \<noteq> ''object'' then ([], ls)
              else if \<not> truthy (get_prop parsedData ''tasks'')
                      \<or> \<not> isArray (get_prop parsedData ''tasks'')
              then ([], ls)
              else (map as_task (filter is_task_like (elements (get_prop parsedData ''tasks''))),
                    ls))"

section \<open>The application (TaskFlowApp)\<close>

text \<open>
  The state of the application that the operations below read and write: the task list,
  the filter, and \<open>localStorage\<close>. Rendering touches none of them.
\<close>

record app =
  tasks :: "task list"
  currentFilter :: jsval
  localStorage :: storage

text \<open>
  What the environment answers during one \<open>addTask\<close>: \<^verbatim>\<open>Date.now()\<close>,
  \<^verbatim>\<open>Math.random()\<close> and \<^verbatim>\<open>new Date().toISOString()\<close> in \<open>createTask\<close>, then the
  answers to \<open>saveTasks\<close>.
\<close>

record add_env =
  date_now :: real
  math_random :: real
  iso_string :: string
  add_save :: save_env

text \<open>
  The constructor's state, then \<open>init\<close> in the case that the probe of
  \<open>isStorageAvailable\<close> succeeds: the probe writes and removes its own key, then the
  tasks are loaded. (When the probe fails, \<open>init\<close> stops with an error before anything
  is loaded or any handler is installed.)
\<close>

definition PROBE_KEY :: string where
  "PROBE_KEY = ''__taskflow_test__''"

definition init :: "storage \<Rightarrow> app" where
  "init ls =
     (let (loaded, ls') = loadTasks (ls(PROBE_KEY := None))
      in \<lparr>tasks = loaded, currentFilter = JStr ''all'', localStorage = ls'\<rparr>)"

definition createTask :: "add_env \<Rightarrow> string \<Rightarrow> task" where
  "createTask e s =
     \<lparr>task_id = Fin (date_now e + math_random e), task_text = trim s, completed = False,
      others = [(''createdAt'', JStr (iso_string e))]\<rparr>"

text \<open>The method \<open>saveTasks\<close> of the class: the result of the write is logged, not used.\<close>

definition app_saveTasks :: "save_env \<Rightarrow> app \<Rightarrow> app" where
  "app_saveTasks e a = a\<lparr>localStorage := snd (saveTasks e (tasks a) (localStorage a))\<rparr>"

text \<open>
  The outcome of \<open>addTask\<close>: the value returned and the message shown with its type.
  The \<^verbatim>\<open>catch\<close> branch is the one for a validation that says valid and carries no text,
  where \<open>checkForDuplicates\<close> would throw; no other call modelled here throws.
\<close>

record add_outcome =
  returned :: bool
  shown :: string
  shown_type :: string

definition addTask :: "add_env \<Rightarrow> jsval \<Rightarrow> app \<Rightarrow> add_outcome \<times> app" where
  "addTask e input a =
     (let validation = validateTaskText input in
      if \<not> isValid validation
      then (\<lparr>returned = False, shown = message validation, shown_type = ''error''\<rparr>, a)
      else case sanitizedText validation of
        None \<Rightarrow>
          (\<lparr>returned = False, shown = ''Failed to add task. Please try again.'',
            shown_type = ''error''\<rparr>, a)
      | Some cleaned \<Rightarrow>
          if hasDuplicates (checkForDuplicates cleaned (tasks a))
          then (\<lparr>returned = False, shown = ''This task already exists'',
                  shown_type = ''warning''\<rparr>, a)
          else case validateTaskObject (createTask e cleaned) of
            Inl m \<Rightarrow> (\<lparr>returned = False, shown = m, shown_type = ''error''\<rparr>, a)
          | Inr sanitizedTask \<Rightarrow>
              (\<lparr>returned = True, shown = ''Task added successfully!'', shown_type = ''success''\<rparr>,
               app_saveTasks (add_save e) (a\<lparr>tasks := sanitizedTask # tasks a\<rparr>)))"

text \<open>\<^verbatim>\<open>findIndex\<close>: the first position that satisfies the test; \<open>None\<close> for -1.\<close>

fun findIndex :: "('a \<Rightarrow> bool) \<Rightarrow> 'a list \<Rightarrow> nat option" where
  "findIndex P [] = None"
| "findIndex P (x # xs) = (if P x then Some 0 else map_option Suc (findIndex P xs))"

text \<open>\<^verbatim>\<open>splice(index, 1)\<close>\<close>

definition splice1 :: "nat \<Rightarrow> 'a list \<Rightarrow> 'a list" where
  "splice1 i xs = take i xs @ drop (Suc i) xs"

definition removeTask :: "save_env \<Rightarrow> jsnum \<Rightarrow> app \<Rightarrow> app" where
  "removeTask e taskId a =
     (case findIndex (\<lambda>t. strict_eq (task_id t) taskId) (tasks a) of
        Some index \<Rightarrow> app_saveTasks e (a\<lparr>tasks := splice1 index (tasks a)\<rparr>)
      | None \<Rightarrow> a)"

text \<open>
  \<^verbatim>\<open>find\<close> returns the first task that satisfies the test, and the assignment changes
  that object, which is the element of the list.
\<close>

definition toggleTaskCompletion :: "save_env \<Rightarrow> jsnum \<Rightarrow> app \<Rightarrow> app" where
  "toggleTaskCompletion e taskId a =
     (case findIndex (\<lambda>t. strict_eq (task_id t) taskId) (tasks a) of
        Some index \<Rightarrow>
          app_saveTasks e
            (a\<lparr>tasks := (tasks a)[index := (tasks a ! index)\<lparr>completed := \<not> completed (tasks a ! index)\<rparr>]\<rparr>)
      | None \<Rightarrow> a)"

text \<open>The answer to the confirmation dialog; a dialog never answered changes nothing.\<close>

datatype answer = Accepted | Cancelled

definition clearCompletedTasks :: "save_env \<Rightarrow> answer \<Rightarrow> app \<Rightarrow> app" where
  "clearCompletedTasks e ans a =
     (let completedCount = length (filter (\<lambda>t. completed t) (tasks a)) in
      if completedCount = 0 then a
      else case ans of
        Accepted \<Rightarrow> app_saveTasks e (a\<lparr>tasks := filter (\<lambda>t. \<not> completed t) (tasks a)\<rparr>)
      | Cancelled \<Rightarrow> a)"

text \<open>One call of an operation of the application, with the environment's answers.\<close>

datatype action =
    AddTask add_env jsval
  | ToggleTaskCompletion save_env jsnum
  | RemoveTask save_env jsnum
  | ClearCompletedTasks save_env answer

fun step :: "app \<Rightarrow> action \<Rightarrow> app" where
  "step a (AddTask e input) = snd (addTask e input a)"
| "step a (ToggleTaskCompletion e taskId) = toggleTaskCompletion e taskId a"
| "step a (RemoveTask e taskId) = removeTask e taskId a"
| "step a (ClearCompletedTasks e ans) = clearCompletedTasks e ans a"

text \<open>The state after initialization from a storage and a sequence of calls.\<close>

definition run :: "storage \<Rightarrow> action list \<Rightarrow> app" where
  "run ls acts = foldl step (init ls) acts"

section \<open>Notions the properties are stated with\<close>

text \<open>A text satisfies the validator.\<close>

definition valid_text :: "string \<Rightarrow> bool" where
  "valid_text s \<longleftrightarrow> isValid (validateTaskText (JStr s))"

text \<open>Every text of a task list satisfies the validator.\<close>

definition texts_valid :: "task list \<Rightarrow> bool" where
  "texts_valid ts \<longleftrightarrow> list_all (\<lambda>t. valid_text (task_text t)) ts"

text \<open>
  Every text is valid, in the task list in memory and in what \<open>loadTasks\<close> reads from
  the storage.
\<close>

definition all_valid :: "app \<Rightarrow> bool" where
  "all_valid a \<longleftrightarrow> texts_valid (tasks a) \<and> texts_valid (fst (loadTasks (localStorage a)))"

text \<open>The task list contains a task with this id, as \<^verbatim>\<open>===\<close> compares.\<close>

definition has_id :: "jsnum \<Rightarrow> task list \<Rightarrow> bool" where
  "has_id taskId ts \<longleftrightarrow> list_ex (\<lambda>t. strict_eq (task_id t) taskId) ts"


text \<open>
  The \<^verbatim>\<open>tasks\<close> array of the stored envelope, when the slot holds a JSON text; and the
  slot holding what \<^verbatim>\<open>JSON.stringify\<close> writes for the task list in memory.
\<close>

definition persisted_tasks :: "storage \<Rightarrow> jsval option" where
  "persisted_tasks ls =
     (case ls STORAGE_KEY of
        Some (Json_text v) \<Rightarrow> Some (get_prop v ''tasks'')
      | _ \<Rightarrow> None)"

definition persisted_matches :: "app \<Rightarrow> bool" where
  "persisted_matches a \<longleftrightarrow>
     persisted_tasks (localStorage a) = Some (written (JArr (map obj_of_task (tasks a))))"

text \<open>\<open>saveTasks\<close> stores the string: at once, or at the retry after a full storage.\<close>

definition write_succeeds :: "save_env \<Rightarrow> bool" where
  "write_succeeds e \<longleftrightarrow>
     save_write e = Stored \<or> (save_write e = QuotaExceeded \<and> retry_write e = Stored)"

text \<open>
  An entry of the stored array whose \<^verbatim>\<open>id\<close> is a number, whose \<^verbatim>\<open>text\<close> is a string and
  whose \<^verbatim>\<open>completed\<close> is a boolean.
\<close>

definition well_shaped :: "jsval \<Rightarrow> bool" where
  "well_shaped v \<longleftrightarrow>
     (case get_prop v ''id'' of JNum n \<Rightarrow> True | _ \<Rightarrow> False)
     \<and> (case get_prop v ''text'' of JStr s \<Rightarrow> True | _ \<Rightarrow> False)
     \<and> (case get_prop v ''completed'' of JBool b \<Rightarrow> True | _ \<Rightarrow> False)"

text \<open>
  A task as the data model describes it: the four properties, \<^verbatim>\<open>createdAt\<close> a string;
  and a task whose id is finite.
\<close>

definition four_fields :: "task \<Rightarrow> bool" where
  "four_fields t \<longleftrightarrow> map fst (others t) = [''createdAt''] \<and> typeof (createdAt t) = ''string''"

definition finite_id :: "task \<Rightarrow> bool" where
  "finite_id t \<longleftrightarrow> (case task_id t of Fin x \<Rightarrow> True | _ \<Rightarrow> False)"

subsection \<open>The validator's rules\<close>

datatype reason =
    Required
  | TooShort
  | TooLong
  | InvalidCharacters
  | ForbiddenContent
  | ExcessiveWhitespace
  | RepetitiveCharacters

text \<open>The message of the code for each reason.\<close>

fun reason_message :: "reason \<Rightarrow> string" where
  "reason_message Required = ''Please enter a task description''"
| "reason_message TooShort = ''Task description cannot be empty''"
| "reason_message TooLong = ''Task description cannot exceed 200 characters''"
| "reason_message InvalidCharacters = ''Task description contains invalid characters''"
| "reason_message ForbiddenContent = ''Task description contains forbidden content''"
| "reason_message ExcessiveWhitespace = ''Task description contains excessive whitespace''"
| "reason_message RepetitiveCharacters = ''Task description contains too many repeated characters''"

fun text_of :: "jsval \<Rightarrow> string" where
  "text_of (JStr s) = s"
| "text_of v = []"

text \<open>
  Rule 1 in two readings: the input is a string that is not empty after trimming; the
  input is a string that is not empty.
\<close>

definition nonempty_after_trim :: "jsval \<Rightarrow> bool" where
  "nonempty_after_trim input \<longleftrightarrow> typeof input = ''string'' \<and> trim (text_of input) \<noteq> []"

definition nonempty_string :: "jsval \<Rightarrow> bool" where
  "nonempty_string input \<longleftrightarrow> typeof input = ''string'' \<and> text_of input \<noteq> []"

text \<open>
  Rules 3 to 6 on the trimmed text, as the specification words them: every character is
  of the allow-set; a forbidden word is a substring, case ignored; three consecutive
  characters are white space; five consecutive characters are one character repeated.
\<close>

definition all_allowed :: "string \<Rightarrow> bool" where
  "all_allowed s \<longleftrightarrow> (\<forall>c \<in> set s. allowed_char c)"

definition forbidden_word_in :: "string \<Rightarrow> bool" where
  "forbidden_word_in s \<longleftrightarrow> (\<exists>w \<in> set FORBIDDEN_WORDS. sublist w (toLowerCase s))"

definition whitespace_run_in :: "string \<Rightarrow> bool" where
  "whitespace_run_in s \<longleftrightarrow>
     (\<exists>i a b c. take 3 (drop i s) = [a, b, c] \<and> is_space a \<and> is_space b \<and> is_space c)"

definition identical_run_in :: "string \<Rightarrow> bool" where
  "identical_run_in s \<longleftrightarrow> (\<exists>i c. take 5 (drop i s) = [c, c, c, c, c])"

text \<open>Five consecutive characters that are one character repeated, no line terminator.\<close>

definition plain_run_in :: "string \<Rightarrow> bool" where
  "plain_run_in s \<longleftrightarrow> (\<exists>i c. take 5 (drop i s) = [c, c, c, c, c] \<and> \<not> is_line_terminator c)"

text \<open>
  The rules in their order, each with the reason of its failure and whether the input
  satisfies it; the first rule given as a parameter.
\<close>

definition rules :: "(jsval \<Rightarrow> bool) \<Rightarrow> jsval \<Rightarrow> (reason \<times> bool) list" where
  "rules rule1 input =
     (let s = trim (text_of input) in
      [(Required, rule1 input),
       (TooShort, 1 \<le> length s),
       (TooLong, length s \<le> 200),
       (InvalidCharacters, all_allowed s),
       (ForbiddenContent, \<not> forbidden_word_in s),
       (ExcessiveWhitespace, \<not> whitespace_run_in s),
       (RepetitiveCharacters, \<not> identical_run_in s)])"

text \<open>First failure wins; with no failure the trimmed text is returned.\<close>

definition validate_by_rules :: "(jsval \<Rightarrow> bool) \<Rightarrow> jsval \<Rightarrow> validation" where
  "validate_by_rules rule1 input =
     (case find (\<lambda>(r, ok). \<not> ok) (rules rule1 input) of
        Some (r, ok) \<Rightarrow> invalid (reason_message r)
      | None \<Rightarrow> \<lparr>isValid = True, message = '''', sanitizedText = Some (trim (text_of input))\<rparr>)"

subsection \<open>Sample data\<close>

text \<open>
  A task as \<open>createTask\<close> builds it, an application state that holds a task list over an
  empty storage, and two environments: one where every write is stored, one where the
  storage is full, so that the write and the retry both throw QuotaExceededError.
\<close>

definition sample_task :: "real \<Rightarrow> string \<Rightarrow> bool \<Rightarrow> task" where
  "sample_task n s c =
     \<lparr>task_id = Fin n, task_text = s, completed = c,
      others = [(''createdAt'', JStr ''2024-05-01T10:00:00.000Z'')]\<rparr>"

definition app_of :: "task list \<Rightarrow> app" where
  "app_of ts = \<lparr>tasks = ts, currentFilter = JStr ''all'', localStorage = Map.empty\<rparr>"

definition writes_stored :: save_env where
  "writes_stored =
     \<lparr>save_now = 1714557600000, save_write = Stored,
      retry_now = 1714557600000, retry_write = Stored\<rparr>"

definition writes_fail :: save_env where
  "writes_fail =
     \<lparr>save_now = 1714557600000, save_write = QuotaExceeded,
      retry_now = 1714557600000, retry_write = QuotaExceeded\<rparr>"

definition adds_at :: "real \<Rightarrow> add_env" where
  "adds_at now =
     \<lparr>date_now = now, math_random = 1 / 2, iso_string = ''2024-05-01T10:00:00.000Z'',
      add_save = writes_stored\<rparr>"

text \<open>
  Three storages: one written by \<open>saveTasks\<close> for a list of one task, one whose slot
  holds an envelope with two tasks of the same id, and one whose slot holds an envelope
  with a task whose text contains a forbidden word.
\<close>

definition stored_valid :: storage where
  "stored_valid =
     Map.empty(STORAGE_KEY \<mapsto> JSON_stringify (dataToStore 1714557600000 [sample_task 1 ''Buy milk'' False]))"


definition stored_invalid :: storage where
  "stored_invalid =
     Map.empty(STORAGE_KEY \<mapsto> Json_text (JObj [(''version'', JStr ''1.0''),
       (''timestamp'', JNum (Fin 1714557600000)),
       (''tasks'', JArr [JObj [(''id'', JNum (Fin 1)), (''text'', JStr ''run script''),
                               (''completed'', JBool False)]])]))"

section \<open>The view keeps the list for every other filter\<close>

text \<open>
  C10. For every task list and every filter value other than the strings 'active' and
  'completed' (so 'all', undefined, any other string, any other value), \<open>filterTasks\<close>
  returns the list it was given: the same tasks in the same order.
\<close>

theorem filterTasks_other_filter:
  "f \<noteq> JStr ''active'' \<Longrightarrow> f \<noteq> JStr ''completed'' \<Longrightarrow> filterTasks ts f = ts"
  by (simp add: filterTasks_def)

theorem filterTasks_other_filter_witness:
  "JUndefined \<noteq> JStr ''active'' \<and> JUndefined \<noteq> JStr ''completed''
   \<and> filterTasks
        [\<lparr>task_id = Fin 2, task_text = ''b'', completed = True, others = []\<rparr>,
         \<lparr>task_id = Fin 1, task_text = ''a'', completed = False, others = []\<rparr>] JUndefined
      = [\<lparr>task_id = Fin 2, task_text = ''b'', completed = True, others = []\<rparr>,
         \<lparr>task_id = Fin 1, task_text = ''a'', completed = False, others = []\<rparr>]"
  using filterTasks_other_filter [of JUndefined
      "[\<lparr>task_id = Fin 2, task_text = ''b'', completed = True, others = []\<rparr>,
        \<lparr>task_id = Fin 1, task_text = ''a'', completed = False, others = []\<rparr>]"]
  by simp

section \<open>Removing a task\<close>

lemma findIndex_None_iff: "findIndex P xs = None \<longleftrightarrow> \<not> list_ex P xs"
  by (induction xs) auto

lemma findIndex_Some:
  "findIndex P xs = Some i \<Longrightarrow> i < length xs \<and> P (xs ! i) \<and> (\<forall>j < i. \<not> P (xs ! j))"
proof (induction xs arbitrary: i)
  case Nil
  then show ?case by simp
next
  case (Cons x xs)
  show ?case
  proof (cases "P x")
    case True
    with Cons.prems show ?thesis by simp
  next
    case False
    with Cons.prems obtain k where k: "findIndex P xs = Some k" "i = Suc k"
      by auto
    from Cons.IH [OF k(1)] False k(2) show ?thesis
      by (auto simp: less_Suc_eq_0_disj)
  qed
qed

lemma tasks_app_saveTasks: "tasks (app_saveTasks e a) = tasks a"
  by (simp add: app_saveTasks_def)







section \<open>Toggling, saving, adding\<close>

lemma findIndex_map: "findIndex P (map f xs) = findIndex (\<lambda>x. P (f x)) xs"
  by (induction xs) auto

lemma findIndex_same_ids:
  "map task_id ts' = map task_id ts \<Longrightarrow>
   findIndex (\<lambda>t. strict_eq (task_id t) c) ts' = findIndex (\<lambda>t. strict_eq (task_id t) c) ts"
  using findIndex_map [of "\<lambda>n. strict_eq n c" task_id ts]
        findIndex_map [of "\<lambda>n. strict_eq n c" task_id ts']
  by simp

lemma map_task_id_flip:
  "map task_id (ts[i := (ts ! i)\<lparr>completed := b\<rparr>]) = map task_id ts"
proof -
  have "map task_id (ts[i := (ts ! i)\<lparr>completed := b\<rparr>]) = (map task_id ts)[i := task_id (ts ! i)]"
    by (simp add: map_update)
  also have "\<dots> = map task_id (ts[i := ts ! i])"
    by (simp only: map_update)
  finally show ?thesis by simp
qed

lemma toggle_present:
  assumes "has_id taskId (tasks a)"
  obtains i where "findIndex (\<lambda>t. strict_eq (task_id t) taskId) (tasks a) = Some i"
    and "i < length (tasks a)" and "strict_eq (task_id (tasks a ! i)) taskId"
    and "tasks (toggleTaskCompletion e taskId a)
         = (tasks a)[i := (tasks a ! i)\<lparr>completed := \<not> completed (tasks a ! i)\<rparr>]"
proof -
  from assms obtain i where i: "findIndex (\<lambda>t. strict_eq (task_id t) taskId) (tasks a) = Some i"
    using findIndex_None_iff [of "\<lambda>t. strict_eq (task_id t) taskId" "tasks a"]
    by (auto simp: has_id_def)
  then have "tasks (toggleTaskCompletion e taskId a)
         = (tasks a)[i := (tasks a ! i)\<lparr>completed := \<not> completed (tasks a ! i)\<rparr>]"
    by (simp add: toggleTaskCompletion_def tasks_app_saveTasks)
  with i findIndex_Some [OF i] show ?thesis by (auto intro: that)
qed

lemma toggle_twice_tasks:
  assumes h: "has_id taskId (tasks a)"
  shows "tasks (toggleTaskCompletion e2 taskId (toggleTaskCompletion e1 taskId a)) = tasks a"
proof -
  let ?a1 = "toggleTaskCompletion e1 taskId a"
  from h obtain i where i: "findIndex (\<lambda>t. strict_eq (task_id t) taskId) (tasks a) = Some i"
    and len: "i < length (tasks a)"
    and t1: "tasks ?a1 = (tasks a)[i := (tasks a ! i)\<lparr>completed := \<not> completed (tasks a ! i)\<rparr>]"
    by (rule toggle_present)
  have ids: "map task_id (tasks ?a1) = map task_id (tasks a)"
    unfolding t1 by (rule map_task_id_flip)
  have i1: "findIndex (\<lambda>t. strict_eq (task_id t) taskId) (tasks ?a1) = Some i"
    using findIndex_same_ids [OF ids] i by simp
  have "tasks (toggleTaskCompletion e2 taskId ?a1)
        = (tasks ?a1)[i := (tasks ?a1 ! i)\<lparr>completed := \<not> completed (tasks ?a1 ! i)\<rparr>]"
    using i1 by (simp add: toggleTaskCompletion_def tasks_app_saveTasks)
  also have "\<dots> = tasks a"
    using len by (simp add: t1 list_update_same_conv)
  finally show ?thesis .
qed

lemma persisted_after_save:
  "write_succeeds e \<Longrightarrow> persisted_matches (app_saveTasks e a)"
  by (auto simp: write_succeeds_def persisted_matches_def persisted_tasks_def app_saveTasks_def
      saveTasks_def JSON_stringify_def dataToStore_def STORAGE_KEY_def Let_def
      split: write_result.splits)

lemma toggle_is_save:
  "has_id taskId (tasks a) \<Longrightarrow> \<exists>b. toggleTaskCompletion e taskId a = app_saveTasks e b"
  using findIndex_None_iff [of "\<lambda>t. strict_eq (task_id t) taskId" "tasks a"]
  by (auto simp: toggleTaskCompletion_def has_id_def)

lemma has_id_toggle:
  assumes "has_id taskId (tasks a)"
  shows "has_id taskId (tasks (toggleTaskCompletion e taskId a))"
proof -
  from assms obtain i where "tasks (toggleTaskCompletion e taskId a)
         = (tasks a)[i := (tasks a ! i)\<lparr>completed := \<not> completed (tasks a ! i)\<rparr>]"
    by (rule toggle_present)
  then have "map task_id (tasks (toggleTaskCompletion e taskId a)) = map task_id (tasks a)"
    by (simp add: map_task_id_flip)
  then have "list_ex (\<lambda>n. strict_eq n taskId) (map task_id (tasks (toggleTaskCompletion e taskId a)))
    = list_ex (\<lambda>n. strict_eq n taskId) (map task_id (tasks a))" by simp
  with assms show ?thesis by (simp add: has_id_def list_ex_iff)
qed

text \<open>
  C7, amended. For an id that some task of the list has, two calls of
  \<open>toggleTaskCompletion\<close> give back the task list before the calls, so the task has its
  original \<^verbatim>\<open>completed\<close> value; and after each call whose write succeeds (at once, or at
  the retry after the storage was cleared) the stored \<^verbatim>\<open>tasks\<close> array is what
  \<^verbatim>\<open>JSON.stringify\<close> writes for the list in memory.
\<close>

theorem toggle_twice:
  assumes "has_id taskId (tasks a)"
  shows "tasks (toggleTaskCompletion e2 taskId (toggleTaskCompletion e1 taskId a)) = tasks a
    \<and> (write_succeeds e1 \<longrightarrow> persisted_matches (toggleTaskCompletion e1 taskId a))
    \<and> (write_succeeds e2 \<longrightarrow>
         persisted_matches (toggleTaskCompletion e2 taskId (toggleTaskCompletion e1 taskId a)))"
proof (intro conjI impI)
  show "tasks (toggleTaskCompletion e2 taskId (toggleTaskCompletion e1 taskId a)) = tasks a"
    using assms by (rule toggle_twice_tasks)
next
  assume "write_succeeds e1"
  with toggle_is_save [OF assms, of e1] show "persisted_matches (toggleTaskCompletion e1 taskId a)"
    by (auto simp: persisted_after_save)
next
  assume "write_succeeds e2"
  with toggle_is_save [OF has_id_toggle [OF assms, of e1], of e2]
  show "persisted_matches (toggleTaskCompletion e2 taskId (toggleTaskCompletion e1 taskId a))"
    by (auto simp: persisted_after_save)
qed

text \<open>
  C9. For an id that some task of the list has, \<open>toggleTaskCompletion\<close> keeps the length
  of the list; at the first position whose task has the id, the task is the one before
  with \<^verbatim>\<open>completed\<close> negated (id, text, \<^verbatim>\<open>createdAt\<close> and every other property as
  before); at every other position the task is the one before, so the order is kept and
  the tasks with another id are unchanged.
\<close>

theorem toggle_frame:
  assumes "has_id taskId (tasks a)"
  shows "\<exists>i < length (tasks a).
      strict_eq (task_id (tasks a ! i)) taskId
    \<and> (\<forall>j < i. \<not> strict_eq (task_id (tasks a ! j)) taskId)
    \<and> length (tasks (toggleTaskCompletion e taskId a)) = length (tasks a)
    \<and> tasks (toggleTaskCompletion e taskId a) ! i
        = (tasks a ! i)\<lparr>completed := \<not> completed (tasks a ! i)\<rparr>
    \<and> (\<forall>j < length (tasks a). j \<noteq> i \<longrightarrow> tasks (toggleTaskCompletion e taskId a) ! j = tasks a ! j)"
proof -
  from assms obtain i where i: "findIndex (\<lambda>t. strict_eq (task_id t) taskId) (tasks a) = Some i"
    and len: "i < length (tasks a)"
    and t1: "tasks (toggleTaskCompletion e taskId a)
       = (tasks a)[i := (tasks a ! i)\<lparr>completed := \<not> completed (tasks a ! i)\<rparr>]"
    by (rule toggle_present)
  from findIndex_Some [OF i] len show ?thesis
    unfolding t1 by (intro exI [of _ i]) simp
qed

lemma subseq_filterTasks: "subseq (filterTasks ts f) ts"
  by (simp add: filterTasks_def)

lemma addTask_success:
  "returned (fst (addTask e input a)) \<Longrightarrow> \<exists>t. tasks (snd (addTask e input a)) = t # tasks a"
  by (auto simp: addTask_def Let_def tasks_app_saveTasks split: option.splits sum.splits if_splits)

section \<open>Loading, and loading what was saved\<close>

lemma typeof_number: "typeof v = ''number'' \<longleftrightarrow> (\<exists>n. v = JNum n)"
  by (cases v) simp_all

lemma typeof_string: "typeof v = ''string'' \<longleftrightarrow> (\<exists>s. v = JStr s)"
  by (cases v) simp_all

lemma typeof_boolean: "typeof v = ''boolean'' \<longleftrightarrow> (\<exists>b. v = JBool b)"
  by (cases v) simp_all

lemma case_JNum: "(case v of JNum n \<Rightarrow> True | _ \<Rightarrow> False) \<longleftrightarrow> (\<exists>n. v = JNum n)"
  by (cases v) simp_all

lemma case_JStr: "(case v of JStr s \<Rightarrow> True | _ \<Rightarrow> False) \<longleftrightarrow> (\<exists>s. v = JStr s)"
  by (cases v) simp_all

lemma case_JBool: "(case v of JBool b \<Rightarrow> True | _ \<Rightarrow> False) \<longleftrightarrow> (\<exists>b. v = JBool b)"
  by (cases v) simp_all

lemma well_shaped_iff:
  "well_shaped v \<longleftrightarrow>
     (\<exists>n s b. get_prop v ''id'' = JNum n \<and> get_prop v ''text'' = JStr s
        \<and> get_prop v ''completed'' = JBool b)"
  by (simp add: well_shaped_def case_JNum case_JStr case_JBool)

lemma well_shaped_object: "well_shaped v \<Longrightarrow> \<exists>fs. v = JObj fs"
  by (cases v) (simp_all add: well_shaped_iff)

lemma well_shaped_is_task_like: "is_task_like v = well_shaped v"
proof (cases "\<exists>fs. v = JObj fs")
  case True
  then show ?thesis
    by (auto simp: is_task_like_def well_shaped_iff typeof_number typeof_string typeof_boolean
        simp del: get_prop.simps)
next
  case False
  then have "\<not> well_shaped v"
    using well_shaped_object by blast
  moreover from False have "get_prop v ''id'' = JUndefined"
    by (cases v) simp_all
  then have "\<not> is_task_like v"
    by (simp add: is_task_like_def)
  ultimately show ?thesis by simp
qed

lemma map_of_filter_key:
  "P k \<Longrightarrow> map_of (filter (\<lambda>(k', x). P k') fs) k = map_of fs k"
  by (induction fs) auto

lemma get_prop_as_task_id:
  "get_prop x ''id'' = JNum n \<Longrightarrow> get_prop (obj_of_task (as_task x)) ''id'' = JNum n"
  by (simp add: obj_of_task_def as_task_def del: get_prop.simps(1)) simp

lemma get_prop_as_task_text:
  "get_prop x ''text'' = JStr s \<Longrightarrow> get_prop (obj_of_task (as_task x)) ''text'' = JStr s"
  by (simp add: obj_of_task_def as_task_def del: get_prop.simps(1)) simp

lemma get_prop_as_task_completed:
  "get_prop x ''completed'' = JBool b \<Longrightarrow>
   get_prop (obj_of_task (as_task x)) ''completed'' = JBool b"
  by (simp add: obj_of_task_def as_task_def del: get_prop.simps(1)) simp

lemma get_prop_as_task_other:
  assumes "k \<notin> {''id'', ''text'', ''completed''}"
  shows "get_prop (obj_of_task (as_task (JObj fs))) k = get_prop (JObj fs) k"
proof -
  from assms
  have "map_of (filter (\<lambda>(k', x). k' \<notin> {''id'', ''text'', ''completed''}) fs) k = map_of fs k"
    by (intro map_of_filter_key) simp
  with assms show ?thesis
    by (simp add: obj_of_task_def as_task_def)
qed

lemma as_task_keeps_properties:
  assumes "well_shaped x"
  shows "get_prop (obj_of_task (as_task x)) k = get_prop x k"
proof -
  from assms obtain fs where x: "x = JObj fs"
    using well_shaped_object by blast
  from assms obtain n s b where p: "get_prop x ''id'' = JNum n" "get_prop x ''text'' = JStr s"
      "get_prop x ''completed'' = JBool b"
    by (auto simp: well_shaped_iff)
  consider "k = ''id''" | "k = ''text''" | "k = ''completed''"
    | "k \<notin> {''id'', ''text'', ''completed''}"
    by blast
  then show ?thesis
  proof cases
    case 1
    with p(1) show ?thesis by (simp only: get_prop_as_task_id)
  next
    case 2
    with p(2) show ?thesis by (simp only: get_prop_as_task_text)
  next
    case 3
    with p(3) show ?thesis by (simp only: get_prop_as_task_completed)
  next
    case 4
    then show ?thesis unfolding x by (rule get_prop_as_task_other)
  qed
qed

lemma loadTasks_malformed:
  "ls STORAGE_KEY = Some Malformed_text \<Longrightarrow> loadTasks ls = ([], ls(STORAGE_KEY := None))"
  by (simp add: loadTasks_def)

lemma loadTasks_empty_text:
  "ls STORAGE_KEY = Some Empty_text \<Longrightarrow> loadTasks ls = ([], ls)"
  by (simp add: loadTasks_def)

lemma loadTasks_no_array:
  "ls STORAGE_KEY = Some (Json_text v) \<Longrightarrow> \<not> isArray (get_prop v ''tasks'') \<Longrightarrow> loadTasks ls = ([], ls)"
  by (simp add: loadTasks_def)

lemma loadTasks_array:
  assumes "ls STORAGE_KEY = Some (Json_text v)" and "isArray (get_prop v ''tasks'')"
  shows "loadTasks ls = (map as_task (filter well_shaped (elements (get_prop v ''tasks''))), ls)"
proof -
  from assms(2) obtain fs where "v = JObj fs"
    by (cases v) auto
  moreover from assms(2) have "truthy (get_prop v ''tasks'')"
    by (cases "get_prop v ''tasks''") auto
  moreover have "is_task_like = well_shaped"
    by (rule ext) (rule well_shaped_is_task_like)
  ultimately show ?thesis
    using assms by (simp add: loadTasks_def)
qed

text \<open>
  C4, amended. \<open>loadTasks\<close> throws in no case. On a non-empty stored string that
  \<^verbatim>\<open>JSON.parse\<close> rejects it returns the empty list and removes the slot. On the empty
  string, which the guard \<^verbatim>\<open>!storedData\<close> treats as no entry, it returns the empty list
  and leaves the storage as it is. On a parsed value whose \<^verbatim>\<open>tasks\<close> is missing or is
  not an array it returns the empty list and leaves the storage as it is. Otherwise it
  returns, in their order, exactly the entries whose \<^verbatim>\<open>id\<close> is a number, \<^verbatim>\<open>text\<close> a
  string and \<^verbatim>\<open>completed\<close> a boolean, and leaves the storage as it is; the task returned
  for such an entry has the properties of the entry.
\<close>

theorem loadTasks_cases:
  "(ls STORAGE_KEY = Some Malformed_text \<longrightarrow> loadTasks ls = ([], ls(STORAGE_KEY := None)))
   \<and> (ls STORAGE_KEY = Some Empty_text \<longrightarrow> loadTasks ls = ([], ls))
   \<and> (ls STORAGE_KEY = Some (Json_text v) \<and> \<not> isArray (get_prop v ''tasks'')
        \<longrightarrow> loadTasks ls = ([], ls))
   \<and> (ls STORAGE_KEY = Some (Json_text v) \<and> isArray (get_prop v ''tasks'')
        \<longrightarrow> loadTasks ls = (map as_task (filter well_shaped (elements (get_prop v ''tasks''))), ls))
   \<and> (well_shaped x \<longrightarrow> get_prop (obj_of_task (as_task x)) k = get_prop x k)"
  using loadTasks_malformed [of ls] loadTasks_empty_text [of ls] loadTasks_no_array [of ls v]
    loadTasks_array [of ls v] as_task_keeps_properties [of x k]
  by blast

lemma written_task_round_trip:
  assumes "finite_id t" and "four_fields t"
  shows "well_shaped (written (obj_of_task t)) \<and> as_task (written (obj_of_task t)) = t"
proof -
  from assms(1) obtain n where n: "task_id t = Fin n"
    by (cases "task_id t") (auto simp: finite_id_def)
  from assms(2) obtain v where v: "others t = [(''createdAt'', v)]"
    by (cases "others t") (auto simp: four_fields_def)
  with assms(2) obtain c where c: "others t = [(''createdAt'', JStr c)]"
    by (cases v) (auto simp: four_fields_def createdAt_def)
  have "written (obj_of_task t)
      = JObj [(''id'', JNum (Fin n)), (''text'', JStr (task_text t)),
              (''completed'', JBool (completed t)), (''createdAt'', JStr c)]"
    by (simp add: obj_of_task_def n c)
  then show ?thesis
    using n c by (simp add: well_shaped_def as_task_def)
qed

lemma load_written_tasks:
  "list_all (\<lambda>t. finite_id t \<and> four_fields t) ts \<Longrightarrow>
   map as_task (filter well_shaped (map (\<lambda>t. written (obj_of_task t)) ts)) = ts"
  by (induction ts) (auto simp: written_task_round_trip)

lemma saveTasks_success:
  assumes "fst (saveTasks e ts ls)"
  obtains now ls0 where "snd (saveTasks e ts ls) = ls0(STORAGE_KEY \<mapsto> JSON_stringify (dataToStore now ts))"
  using assms
  by (auto simp: saveTasks_def Let_def split: write_result.splits if_splits)

text \<open>
  C5, amended. For every list of tasks that have the four properties of the data model,
  with a finite number as id and a string as \<^verbatim>\<open>createdAt\<close>, when \<open>saveTasks\<close> reports
  success, \<open>loadTasks\<close> on the storage it leaves returns the list that was saved: the
  same tasks in the same order.
\<close>

theorem save_load_round_trip:
  assumes "list_all (\<lambda>t. finite_id t \<and> four_fields t) ts" and "fst (saveTasks e ts ls)"
  shows "fst (loadTasks (snd (saveTasks e ts ls))) = ts"
proof -
  from assms(2) obtain now ls0
    where s: "snd (saveTasks e ts ls) = ls0(STORAGE_KEY \<mapsto> JSON_stringify (dataToStore now ts))"
    by (rule saveTasks_success)
  let ?v = "written (dataToStore now ts)"
  have k: "(snd (saveTasks e ts ls)) STORAGE_KEY = Some (Json_text ?v)"
    by (simp add: s JSON_stringify_def)
  have t: "get_prop ?v ''tasks'' = JArr (map (\<lambda>t. written (obj_of_task t)) ts)"
    by (simp add: dataToStore_def comp_def)
  have "loadTasks (snd (saveTasks e ts ls))
      = (map as_task (filter well_shaped (elements (get_prop ?v ''tasks''))), snd (saveTasks e ts ls))"
    using k by (rule loadTasks_array) (simp add: t)
  then show ?thesis
    by (simp add: t load_written_tasks [OF assms(1)])
qed

section \<open>The properties at sample data\<close>

lemmas sample_defs = sample_task_def app_of_def writes_stored_def writes_fail_def adds_at_def



text \<open>C7 at a list of two tasks with writes that are stored.\<close>

theorem toggle_twice_witness:
  "has_id (Fin 1) (tasks (app_of [sample_task 2 ''b'' False, sample_task 1 ''a'' True]))
   \<and> write_succeeds writes_stored
   \<and> tasks (toggleTaskCompletion writes_stored (Fin 1)
              (app_of [sample_task 2 ''b'' False, sample_task 1 ''a'' True]))
      = [sample_task 2 ''b'' False, sample_task 1 ''a'' False]
   \<and> tasks (toggleTaskCompletion writes_stored (Fin 1)
        (toggleTaskCompletion writes_stored (Fin 1)
           (app_of [sample_task 2 ''b'' False, sample_task 1 ''a'' True])))
      = [sample_task 2 ''b'' False, sample_task 1 ''a'' True]
   \<and> persisted_matches (toggleTaskCompletion writes_stored (Fin 1)
        (app_of [sample_task 2 ''b'' False, sample_task 1 ''a'' True]))"
  using toggle_twice [of "Fin 1" "app_of [sample_task 2 ''b'' False, sample_task 1 ''a'' True]"
      writes_stored writes_stored]
  by (simp add: sample_defs has_id_def strict_eq_def write_succeeds_def toggleTaskCompletion_def
      app_saveTasks_def)

text \<open>
  C7 as stated fails when the storage is full: the task is toggled in memory, the write
  and the retry throw, and the storage is left cleared, with no slot.
\<close>

theorem toggle_write_failure_counterexample:
  "has_id (Fin 1) (tasks (app_saveTasks writes_stored (app_of [sample_task 1 ''a'' True])))
   \<and> persisted_matches (app_saveTasks writes_stored (app_of [sample_task 1 ''a'' True]))
   \<and> \<not> persisted_matches
        (toggleTaskCompletion writes_fail (Fin 1)
           (app_saveTasks writes_stored (app_of [sample_task 1 ''a'' True])))
   \<and> localStorage
        (toggleTaskCompletion writes_fail (Fin 1)
           (app_saveTasks writes_stored (app_of [sample_task 1 ''a'' True]))) STORAGE_KEY = None
   \<and> tasks
        (toggleTaskCompletion writes_fail (Fin 1)
           (app_saveTasks writes_stored (app_of [sample_task 1 ''a'' True])))
      = [sample_task 1 ''a'' False]"
  by (simp add: sample_defs has_id_def strict_eq_def toggleTaskCompletion_def app_saveTasks_def
      saveTasks_def persisted_matches_def persisted_tasks_def JSON_stringify_def dataToStore_def
      obj_of_task_def STORAGE_KEY_def STORAGE_VERSION_def)

text \<open>C9 at a list of two tasks: the task at the head, with another id, is kept.\<close>

theorem toggle_frame_witness:
  "has_id (Fin 1) (tasks (app_of [sample_task 2 ''b'' False, sample_task 1 ''a'' True]))
   \<and> length (tasks (toggleTaskCompletion writes_stored (Fin 1)
                (app_of [sample_task 2 ''b'' False, sample_task 1 ''a'' True]))) = 2
   \<and> tasks (toggleTaskCompletion writes_stored (Fin 1)
              (app_of [sample_task 2 ''b'' False, sample_task 1 ''a'' True])) ! 0
      = sample_task 2 ''b'' False"
proof -
  let ?a = "app_of [sample_task 2 ''b'' False, sample_task 1 ''a'' True]"
  have h: "has_id (Fin 1) (tasks ?a)"
    by (simp add: sample_defs has_id_def strict_eq_def)
  from toggle_frame [OF h, of writes_stored] obtain i where i: "i < length (tasks ?a)"
    "strict_eq (task_id (tasks ?a ! i)) (Fin 1)"
    "length (tasks (toggleTaskCompletion writes_stored (Fin 1) ?a)) = length (tasks ?a)"
    "\<forall>j < length (tasks ?a). j \<noteq> i \<longrightarrow> tasks (toggleTaskCompletion writes_stored (Fin 1) ?a) ! j = tasks ?a ! j"
    by blast
  from i(1,2) have "i = 1"
    by (cases i) (simp_all add: sample_defs strict_eq_def)
  with i(3,4) h show ?thesis
    by (simp add: app_of_def)
qed

text \<open>
  C4 at three stored strings: an envelope with one well-shaped entry, one entry whose id
  is a string and one \<^verbatim>\<open>null\<close>; a string that does not parse; an envelope whose
  \<^verbatim>\<open>tasks\<close> is a string.
\<close>

theorem loadTasks_cases_witness:
  "fst (loadTasks (Map.empty(STORAGE_KEY \<mapsto> Json_text (JObj [(''version'', JStr ''1.0''),
          (''tasks'', JArr [obj_of_task (sample_task 1 ''a'' True),
                            JObj [(''id'', JStr ''7''), (''text'', JStr ''b''), (''completed'', JBool False)],
                            JNull])]))))
     = [sample_task 1 ''a'' True]
   \<and> loadTasks (Map.empty(STORAGE_KEY \<mapsto> Malformed_text)) = ([], Map.empty)
   \<and> loadTasks (Map.empty(STORAGE_KEY \<mapsto> Json_text (JObj [(''tasks'', JStr ''none'')])))
       = ([], Map.empty(STORAGE_KEY \<mapsto> Json_text (JObj [(''tasks'', JStr ''none'')])))"
  using loadTasks_cases [of "Map.empty(STORAGE_KEY \<mapsto> Json_text (JObj [(''version'', JStr ''1.0''),
          (''tasks'', JArr [obj_of_task (sample_task 1 ''a'' True),
                            JObj [(''id'', JStr ''7''), (''text'', JStr ''b''), (''completed'', JBool False)],
                            JNull])]))"
      "JObj [(''version'', JStr ''1.0''),
          (''tasks'', JArr [obj_of_task (sample_task 1 ''a'' True),
                            JObj [(''id'', JStr ''7''), (''text'', JStr ''b''), (''completed'', JBool False)],
                            JNull])]" JNull "''id''"]
    loadTasks_cases [of "Map.empty(STORAGE_KEY \<mapsto> Malformed_text)" JNull JNull "''id''"]
    loadTasks_cases [of "Map.empty(STORAGE_KEY \<mapsto> Json_text (JObj [(''tasks'', JStr ''none'')]))"
       "JObj [(''tasks'', JStr ''none'')]" JNull "''id''"]
  by (simp add: sample_task_def obj_of_task_def as_task_def well_shaped_def)

text \<open>
  C4 as stated fails on the empty string: \<^verbatim>\<open>JSON.parse\<close> rejects it, and \<open>loadTasks\<close>
  leaves it in the slot.
\<close>

theorem loadTasks_empty_string_counterexample:
  "JSON_parse Empty_text = None
   \<and> snd (loadTasks (Map.empty(STORAGE_KEY \<mapsto> Empty_text))) STORAGE_KEY = Some Empty_text"
  by (simp add: loadTasks_def)

text \<open>C5 at a list of two tasks.\<close>

theorem save_load_round_trip_witness:
  "list_all (\<lambda>t. finite_id t \<and> four_fields t) [sample_task 2 ''b'' False, sample_task 1 ''a'' True]
   \<and> fst (saveTasks writes_stored [sample_task 2 ''b'' False, sample_task 1 ''a'' True] Map.empty)
   \<and> fst (loadTasks (snd (saveTasks writes_stored [sample_task 2 ''b'' False, sample_task 1 ''a'' True] Map.empty)))
      = [sample_task 2 ''b'' False, sample_task 1 ''a'' True]"
  using save_load_round_trip [of "[sample_task 2 ''b'' False, sample_task 1 ''a'' True]" writes_stored Map.empty]
  by (simp add: sample_task_def writes_stored_def finite_id_def four_fields_def createdAt_def
      saveTasks_def JSON_stringify_def)

text \<open>
  C5 as stated fails on a task whose id is the number Infinity: \<^verbatim>\<open>JSON.stringify\<close>
  writes the id as \<^verbatim>\<open>null\<close>, and \<open>loadTasks\<close> drops the entry.
\<close>

theorem save_load_infinite_id_counterexample:
  "four_fields ((sample_task 1 ''a'' True)\<lparr>task_id := PosInf\<rparr>)
   \<and> fst (saveTasks writes_stored [(sample_task 1 ''a'' True)\<lparr>task_id := PosInf\<rparr>] Map.empty)
   \<and> fst (loadTasks (snd (saveTasks writes_stored [(sample_task 1 ''a'' True)\<lparr>task_id := PosInf\<rparr>] Map.empty)))
      = []"
  by (simp add: sample_task_def writes_stored_def four_fields_def createdAt_def
      saveTasks_def JSON_stringify_def dataToStore_def obj_of_task_def loadTasks_def
      is_task_like_def)

text \<open>
  C8. When \<open>addTask\<close> returns true, the task list afterwards is a new task followed by
  the list before, so the tasks that were there keep their order; and for every filter
  value, 'all', 'active' and 'completed' among them, what \<open>filterTasks\<close> returns is a
  sub-sequence of the list: its tasks are in the order of the list.
\<close>

theorem addTask_prepends:
  "(returned (fst (addTask e input a)) \<longrightarrow> (\<exists>t. tasks (snd (addTask e input a)) = t # tasks a))
   \<and> subseq (filterTasks ts f) ts"
  using addTask_success [of e input a] subseq_filterTasks [of ts f] by blast

text \<open>C8 at a list of one task and the input " Buy milk ".\<close>

theorem addTask_prepends_witness:
  "returned (fst (addTask (adds_at 1714557600000) (JStr '' Buy milk '') (app_of [sample_task 1 ''a'' True])))
   \<and> (\<exists>t. tasks (snd (addTask (adds_at 1714557600000) (JStr '' Buy milk '') (app_of [sample_task 1 ''a'' True])))
           = t # [sample_task 1 ''a'' True])"
proof -
  have h: "returned (fst (addTask (adds_at 1714557600000) (JStr '' Buy milk '') (app_of [sample_task 1 ''a'' True])))"
    by code_simp
  with addTask_prepends [of "adds_at 1714557600000" "JStr '' Buy milk ''" "app_of [sample_task 1 ''a'' True]"]
  show ?thesis by (simp add: app_of_def)
qed

section \<open>Trimming, validity, duplicates\<close>

lemma dropWhile_fixed: "xs = [] \<or> \<not> P (hd xs) \<Longrightarrow> dropWhile P xs = xs"
  by (cases xs) auto

lemma trim_ends:
  "trim s = [] \<or> (\<not> is_space (hd (trim s)) \<and> \<not> is_space (last (trim s)))"
proof (cases "trim s = []")
  case True
  then show ?thesis by simp
next
  case False
  let ?u = "dropWhile is_space s"
  let ?w = "dropWhile is_space (rev ?u)"
  have t: "trim s = rev ?w" by (simp add: trim_def)
  with False have w: "?w \<noteq> []" by simp
  then have l: "\<not> is_space (hd ?w)" by (rule hd_dropWhile)
  have "last (trim s) = hd ?w"
    using w by (simp add: t last_rev)
  with l have last: "\<not> is_space (last (trim s))" by simp
  have u: "?u \<noteq> []"
  proof
    assume "?u = []"
    then have "?w = []" by (simp only: rev.simps dropWhile.simps)
    with w show False by contradiction
  qed
  then have hu: "\<not> is_space (hd ?u)" by (rule hd_dropWhile)
  have "suffix ?w (rev ?u)" by (rule suffix_dropWhile)
  then obtain p where p: "rev ?u = p @ ?w" by (auto simp: suffix_def)
  then have "?u = rev ?w @ rev p"
    by (metis rev_append rev_rev_ident)
  with w have "hd ?u = hd (rev ?w)"
    by (metis hd_append2 rev_is_Nil_conv)
  with hu t have "\<not> is_space (hd (trim s))" by simp
  with last show ?thesis by simp
qed

lemma trim_fixed:
  assumes "s = [] \<or> (\<not> is_space (hd s) \<and> \<not> is_space (last s))"
  shows "trim s = s"
proof (cases "s = []")
  case True
  then show ?thesis by (simp add: trim_def)
next
  case False
  with assms have h: "\<not> is_space (hd s)" and l: "\<not> is_space (last s)" by simp_all
  from False h have 1: "dropWhile is_space s = s" by (simp add: dropWhile_fixed)
  from False l have "dropWhile is_space (rev s) = rev s"
    by (intro dropWhile_fixed) (simp add: hd_rev)
  with 1 show ?thesis by (simp add: trim_def)
qed

lemma trim_idem: "trim (trim s) = trim s"
  using trim_ends [of s] by (rule trim_fixed)

text \<open>What passes every length, character, word and run test.\<close>

lemma validate_invalid_no_text [simp]: "sanitizedText (invalid m) = None" "\<not> isValid (invalid m)"
  by (simp_all add: invalid_def)

lemma validate_not_string:
  "typeof input \<noteq> ''string'' \<Longrightarrow> validateTaskText input = invalid ''Please enter a task description''"
  by (simp add: validateTaskText_def)

lemma validate_string_valid:
  "isValid (validateTaskText (JStr s)) \<longleftrightarrow>
     s \<noteq> [] \<and> MIN_LENGTH \<le> length (trim s) \<and> length (trim s) \<le> MAX_LENGTH
     \<and> ALLOWED_CHARS_test (trim s)
     \<and> \<not> list_ex (string_includes (toLowerCase (trim s))) FORBIDDEN_WORDS
     \<and> \<not> whitespace_run_test (trim s) \<and> \<not> repeated_char_test (trim s)"
  by (simp add: validateTaskText_def Let_def not_less not_le)

lemma validate_string_text:
  "sanitizedText (validateTaskText (JStr s)) = Some c \<Longrightarrow>
   isValid (validateTaskText (JStr s)) \<and> c = trim s"
  by (simp add: validateTaskText_def Let_def split: if_splits)

lemma validate_valid_text:
  "isValid (validateTaskText (JStr s)) \<Longrightarrow> sanitizedText (validateTaskText (JStr s)) = Some (trim s)"
  by (simp add: validateTaskText_def Let_def split: if_splits)

lemma validate_text:
  assumes "sanitizedText (validateTaskText input) = Some c"
  obtains s where "input = JStr s" and "isValid (validateTaskText (JStr s))" and "c = trim s"
proof (cases "typeof input = ''string''")
  case True
  then obtain s where "input = JStr s" by (cases input) simp_all
  with assms validate_string_text [of s c] show ?thesis by (auto intro: that)
next
  case False
  with assms show ?thesis by (simp add: validate_not_string)
qed

lemma valid_text_trim:
  assumes "isValid (validateTaskText (JStr s))"
  shows "valid_text (trim s)"
proof -
  from assms have "MIN_LENGTH \<le> length (trim s)" by (simp add: validate_string_valid)
  then have "trim s \<noteq> []" by (auto simp: MIN_LENGTH_def)
  with assms show ?thesis
    by (simp add: valid_text_def validate_string_valid trim_idem)
qed

text \<open>The task that a successful \<open>addTask\<close> puts at the head.\<close>

lemma addTask_returned:
  assumes "returned (fst (addTask e input a))"
  obtains s where "input = JStr s" and "isValid (validateTaskText (JStr s))"
    and "\<not> hasDuplicates (checkForDuplicates (trim s) (tasks a))"
    and "snd (addTask e input a)
         = app_saveTasks (add_save e) (a\<lparr>tasks := (createTask e (trim s))\<lparr>task_text := trim s\<rparr> # tasks a\<rparr>)"
proof -
  from assms obtain c where c: "sanitizedText (validateTaskText input) = Some c"
    by (auto simp: addTask_def Let_def split: option.splits if_splits)
  then obtain s where s: "input = JStr s" "isValid (validateTaskText (JStr s))" "c = trim s"
    by (rule validate_text)
  from assms c s have d: "\<not> hasDuplicates (checkForDuplicates (trim s) (tasks a))"
    by (auto simp: addTask_def Let_def split: if_splits)
  have v: "valid_text (trim s)" using s(2) by (rule valid_text_trim)
  then have st: "sanitizedText (validateTaskText (JStr (trim s))) = Some (trim s)"
    using validate_valid_text [of "trim s"] by (simp add: valid_text_def trim_idem)
  from assms c s d obtain t where t: "validateTaskObject (createTask e (trim s)) = Inr t"
    "snd (addTask e input a) = app_saveTasks (add_save e) (a\<lparr>tasks := t # tasks a\<rparr>)"
    by (auto simp: addTask_def Let_def split: if_splits sum.splits)
  have tt: "task_text (createTask e (trim s)) = trim s"
    by (simp add: createTask_def trim_idem)
  from t(1) have "t = (createTask e (trim s))\<lparr>task_text := trim s\<rparr>"
    by (auto simp: validateTaskObject_def Let_def tt st split: if_splits)
  with s d t(2) show ?thesis by (auto intro: that)
qed





section \<open>Valid texts are kept\<close>

lemma texts_valid_Cons [simp]: "texts_valid (t # ts) \<longleftrightarrow> valid_text (task_text t) \<and> texts_valid ts"
  by (simp add: texts_valid_def)

lemma texts_valid_Nil [simp]: "texts_valid []"
  by (simp add: texts_valid_def)

lemma texts_valid_subset: "texts_valid ts \<Longrightarrow> set ts' \<subseteq> set ts \<Longrightarrow> texts_valid ts'"
  by (auto simp: texts_valid_def list_all_iff)

lemma texts_valid_same_texts:
  "texts_valid ts \<Longrightarrow> task_text ` set ts' \<subseteq> task_text ` set ts \<Longrightarrow> texts_valid ts'"
  by (auto simp: texts_valid_def list_all_iff)

text \<open>What a successful write leaves in the slot loads as tasks with texts of the list.\<close>

lemma text_of_written_task: "task_text (as_task (written (obj_of_task t))) = task_text t"
  by (simp add: obj_of_task_def as_task_def)

lemma load_after_write:
  "task_text ` set (fst (loadTasks (ls(STORAGE_KEY \<mapsto> JSON_stringify (dataToStore now ts)))))
     \<subseteq> task_text ` set ts"
proof -
  let ?v = "written (dataToStore now ts)"
  let ?ls = "ls(STORAGE_KEY \<mapsto> JSON_stringify (dataToStore now ts))"
  have k: "?ls STORAGE_KEY = Some (Json_text ?v)"
    by (simp add: JSON_stringify_def)
  have t: "get_prop ?v ''tasks'' = JArr (map (\<lambda>t. written (obj_of_task t)) ts)"
    by (simp add: dataToStore_def comp_def)
  have "loadTasks ?ls = (map as_task (filter well_shaped (elements (get_prop ?v ''tasks''))), ?ls)"
    using k by (rule loadTasks_array) (simp add: t)
  then show ?thesis
    by (auto simp: t text_of_written_task)
qed

lemma loadTasks_no_slot: "ls STORAGE_KEY = None \<Longrightarrow> loadTasks ls = ([], ls)"
  by (simp add: loadTasks_def)

lemma load_after_save:
  assumes "texts_valid ts" and "texts_valid (fst (loadTasks ls))"
  shows "texts_valid (fst (loadTasks (snd (saveTasks e ts ls))))"
proof (cases "save_write e")
  case Stored
  then have "snd (saveTasks e ts ls) = ls(STORAGE_KEY \<mapsto> JSON_stringify (dataToStore (save_now e) ts))"
    by (simp add: saveTasks_def Let_def)
  with assms(1) show ?thesis
    using load_after_write [of ls "save_now e" ts] by (simp add: texts_valid_same_texts)
next
  case QuotaExceeded
  show ?thesis
  proof (cases "retry_write e = Stored")
    case True
    with QuotaExceeded
    have "snd (saveTasks e ts ls) = Map.empty(STORAGE_KEY \<mapsto> JSON_stringify (dataToStore (retry_now e) ts))"
      by (simp add: saveTasks_def)
    with assms(1) show ?thesis
      using load_after_write [of Map.empty "retry_now e" ts] by (simp add: texts_valid_same_texts)
  next
    case False
    with QuotaExceeded have "snd (saveTasks e ts ls) = Map.empty"
      by (cases "retry_write e") (simp_all add: saveTasks_def)
    then show ?thesis by (simp add: loadTasks_no_slot)
  qed
next
  case WriteFailure
  with assms(2) show ?thesis by (simp add: saveTasks_def)
qed

lemma all_valid_save:
  "all_valid a \<Longrightarrow> texts_valid ts \<Longrightarrow> all_valid (app_saveTasks e (a\<lparr>tasks := ts\<rparr>))"
  by (simp add: all_valid_def app_saveTasks_def load_after_save)

lemma loadTasks_again: "fst (loadTasks (snd (loadTasks ls))) = fst (loadTasks ls)"
proof (cases "snd (loadTasks ls) = ls")
  case True
  then show ?thesis by simp
next
  case False
  then have "loadTasks ls = ([], ls(STORAGE_KEY := None))"
    by (auto simp: loadTasks_def Let_def split: option.splits if_splits)
  then show ?thesis by (simp add: loadTasks_no_slot)
qed

lemma loadTasks_other_key:
  "k \<noteq> STORAGE_KEY \<Longrightarrow> fst (loadTasks (ls(k := v))) = fst (loadTasks ls)"
  by (simp add: loadTasks_def split: option.splits)

lemma all_valid_init:
  assumes "texts_valid (fst (loadTasks ls))"
  shows "all_valid (init ls)"
proof -
  have "PROBE_KEY \<noteq> STORAGE_KEY"
    by (simp add: PROBE_KEY_def STORAGE_KEY_def)
  then have "fst (loadTasks (ls(PROBE_KEY := None))) = fst (loadTasks ls)"
    by (rule loadTasks_other_key)
  with assms loadTasks_again [of "ls(PROBE_KEY := None)"] show ?thesis
    by (simp add: all_valid_def init_def split_beta)
qed

lemma all_valid_addTask:
  assumes "all_valid a"
  shows "all_valid (snd (addTask e input a))"
proof (cases "returned (fst (addTask e input a))")
  case True
  then obtain s where s: "isValid (validateTaskText (JStr s))"
    and a1: "snd (addTask e input a)
         = app_saveTasks (add_save e) (a\<lparr>tasks := (createTask e (trim s))\<lparr>task_text := trim s\<rparr> # tasks a\<rparr>)"
    by (rule addTask_returned)
  from s have "valid_text (trim s)" by (rule valid_text_trim)
  with assms have "texts_valid ((createTask e (trim s))\<lparr>task_text := trim s\<rparr> # tasks a)"
    by (simp add: all_valid_def)
  with assms show ?thesis unfolding a1 by (rule all_valid_save)
next
  case False
  then have "snd (addTask e input a) = a"
    by (auto simp: addTask_def Let_def split: option.splits if_splits sum.splits)
  with assms show ?thesis by simp
qed

lemma all_valid_toggle:
  assumes "all_valid a"
  shows "all_valid (toggleTaskCompletion e taskId a)"
proof (cases "findIndex (\<lambda>t. strict_eq (task_id t) taskId) (tasks a)")
  case None
  with assms show ?thesis by (simp add: toggleTaskCompletion_def)
next
  case (Some i)
  let ?ts = "(tasks a)[i := (tasks a ! i)\<lparr>completed := \<not> completed (tasks a ! i)\<rparr>]"
  from findIndex_Some [OF Some] have "i < length (tasks a)" by simp
  then have "task_text ` set ?ts \<subseteq> task_text ` set (tasks a)"
    by (auto simp: set_conv_nth nth_list_update image_iff)
  with assms have "texts_valid ?ts"
    by (auto simp: all_valid_def intro: texts_valid_same_texts)
  with assms have "all_valid (app_saveTasks e (a\<lparr>tasks := ?ts\<rparr>))" by (rule all_valid_save)
  with Some show ?thesis by (simp add: toggleTaskCompletion_def)
qed

lemma all_valid_remove:
  assumes "all_valid a"
  shows "all_valid (removeTask e taskId a)"
proof (cases "findIndex (\<lambda>t. strict_eq (task_id t) taskId) (tasks a)")
  case None
  with assms show ?thesis by (simp add: removeTask_def)
next
  case (Some i)
  have "set (splice1 i (tasks a)) \<subseteq> set (tasks a)"
    by (auto simp: splice1_def dest: in_set_takeD in_set_dropD)
  with assms have "texts_valid (splice1 i (tasks a))"
    by (auto simp: all_valid_def intro: texts_valid_subset)
  with assms have "all_valid (app_saveTasks e (a\<lparr>tasks := splice1 i (tasks a)\<rparr>))"
    by (rule all_valid_save)
  with Some show ?thesis by (simp add: removeTask_def)
qed

lemma all_valid_clear:
  assumes "all_valid a"
  shows "all_valid (clearCompletedTasks e ans a)"
proof -
  from assms have "texts_valid (filter (\<lambda>t. \<not> completed t) (tasks a))"
    by (auto simp: all_valid_def intro: texts_valid_subset)
  with assms have "all_valid (app_saveTasks e (a\<lparr>tasks := filter (\<lambda>t. \<not> completed t) (tasks a)\<rparr>))"
    by (rule all_valid_save)
  with assms show ?thesis
    by (cases ans) (simp_all add: clearCompletedTasks_def Let_def)
qed

lemma all_valid_step: "all_valid a \<Longrightarrow> all_valid (step a act)"
  by (cases act) (simp_all add: all_valid_addTask all_valid_toggle all_valid_remove all_valid_clear)

lemma all_valid_foldl: "all_valid a \<Longrightarrow> all_valid (foldl step a acts)"
  by (induction acts arbitrary: a) (simp_all add: all_valid_step)

lemma addTask_head_valid:
  assumes "returned (fst (addTask e input a))"
  shows "valid_text (task_text (hd (tasks (snd (addTask e input a)))))"
proof -
  from assms obtain s where s: "isValid (validateTaskText (JStr s))"
    and a1: "snd (addTask e input a)
         = app_saveTasks (add_save e) (a\<lparr>tasks := (createTask e (trim s))\<lparr>task_text := trim s\<rparr> # tasks a\<rparr>)"
    by (rule addTask_returned)
  from s have "valid_text (trim s)" by (rule valid_text_trim)
  then show ?thesis by (simp add: a1 app_saveTasks_def)
qed

text \<open>
  C2, amended. When every text that \<open>loadTasks\<close> reads from the storage at initialization
  satisfies \<open>validateTaskText\<close>, then after every sequence of \<open>addTask\<close>,
  \<open>toggleTaskCompletion\<close>, \<open>removeTask\<close> and \<open>clearCompletedTasks\<close>, whatever the storage
  answers, every text of the task list satisfies it, and so does every text that
  \<open>loadTasks\<close> would read from the slot. And in every state, a successful \<open>addTask\<close> puts
  at the head a task whose text satisfies \<open>validateTaskText\<close>.
\<close>

theorem texts_stay_valid:
  "(texts_valid (fst (loadTasks ls)) \<longrightarrow>
      texts_valid (tasks (run ls acts))
      \<and> texts_valid (fst (loadTasks (localStorage (run ls acts)))))
   \<and> (returned (fst (addTask e input a)) \<longrightarrow>
        valid_text (task_text (hd (tasks (snd (addTask e input a))))))"
  using all_valid_foldl [OF all_valid_init, of ls acts] addTask_head_valid [of e input a]
  by (simp add: run_def all_valid_def)

section \<open>The validator and its rules\<close>

lemma ex_nat_split: "(\<exists>i::nat. P i) \<longleftrightarrow> P 0 \<or> (\<exists>i. P (Suc i))"
  by (metis not0_implies_Suc)

lemma window_length: "take n (drop i s) = w \<Longrightarrow> length w = n \<Longrightarrow> 0 < n \<Longrightarrow> i + n \<le> length s"
  by (auto simp: min_def split: if_splits)

lemma no_window_3: "length s < 3 \<Longrightarrow> take 3 (drop i s) \<noteq> [a, b, c]"
  using window_length [of 3 i s "[a, b, c]"] by auto

lemma no_window_5: "length s < 5 \<Longrightarrow> take 5 (drop i s) \<noteq> [a, b, c, d, e]"
  using window_length [of 5 i s "[a, b, c, d, e]"] by auto

lemma take_3_Cons: "take 3 (a # b # c # s) = [a, b, c]"
  by (simp add: eval_nat_numeral)

lemma take_5_Cons: "take 5 (a # b # c # d # e # s) = [a, b, c, d, e]"
  by (simp add: eval_nat_numeral)

lemma short_no_whitespace_run: "length s < 3 \<Longrightarrow> whitespace_run_in s = False"
  using no_window_3 [of s] unfolding whitespace_run_in_def by blast

lemma whitespace_run_test_iff: "whitespace_run_test s \<longleftrightarrow> whitespace_run_in s"
proof (induction s rule: whitespace_run_test.induct)
  case (1 a b c s)
  have "whitespace_run_in (a # b # c # s)
      \<longleftrightarrow> (is_space a \<and> is_space b \<and> is_space c) \<or> whitespace_run_in (b # c # s)"
    unfolding whitespace_run_in_def
    by (subst ex_nat_split) (simp only: drop_0 drop_Suc_Cons take_3_Cons, auto)
  with 1 show ?case by simp
qed (simp_all add: short_no_whitespace_run)

lemma short_no_plain_run: "length s < 5 \<Longrightarrow> plain_run_in s = False"
  using no_window_5 [of s] unfolding plain_run_in_def by blast

lemma repeated_char_test_iff: "repeated_char_test s \<longleftrightarrow> plain_run_in s"
proof (induction s rule: repeated_char_test.induct)
  case (1 a b c d e s)
  have "plain_run_in (a # b # c # d # e # s)
      \<longleftrightarrow> (\<not> is_line_terminator a \<and> b = a \<and> c = a \<and> d = a \<and> e = a)
          \<or> plain_run_in (b # c # d # e # s)"
    unfolding plain_run_in_def
    by (subst ex_nat_split) (simp only: drop_0 drop_Suc_Cons take_5_Cons, auto)
  with 1 show ?case by simp
qed (simp_all add: short_no_plain_run)

lemma line_terminator_is_space: "is_line_terminator c \<Longrightarrow> is_space c"
  by (auto simp: is_line_terminator_def is_space_def)

lemma take_take_drop: "take 5 (drop i s) = [c, c, c, c, c] \<Longrightarrow> take 3 (drop i s) = [c, c, c]"
proof -
  assume a: "take 5 (drop i s) = [c, c, c, c, c]"
  have "take 3 (drop i s) = take 3 (take 5 (drop i s))" by simp
  also have "\<dots> = [c, c, c]" unfolding a by (simp add: eval_nat_numeral)
  finally show ?thesis .
qed

lemma identical_run_plain:
  assumes "\<not> whitespace_run_in s"
  shows "plain_run_in s \<longleftrightarrow> identical_run_in s"
proof
  assume "plain_run_in s"
  then show "identical_run_in s" by (auto simp: plain_run_in_def identical_run_in_def)
next
  assume "identical_run_in s"
  then obtain i c where w: "take 5 (drop i s) = [c, c, c, c, c]"
    by (auto simp: identical_run_in_def)
  have "\<not> is_line_terminator c"
  proof
    assume "is_line_terminator c"
    then have "is_space c" by (rule line_terminator_is_space)
    with take_take_drop [OF w] have "whitespace_run_in s"
      by (auto simp: whitespace_run_in_def)
    with assms show False by contradiction
  qed
  with w show "plain_run_in s" by (auto simp: plain_run_in_def)
qed

lemma string_includes_iff: "string_includes s w \<longleftrightarrow> sublist w s"
  by (induction s) (auto simp: sublist_Cons_right)

lemma forbidden_iff:
  "list_ex (string_includes (toLowerCase s)) FORBIDDEN_WORDS \<longleftrightarrow> forbidden_word_in s"
  by (simp add: forbidden_word_in_def list_ex_iff string_includes_iff)

lemma allowed_iff: "s \<noteq> [] \<Longrightarrow> ALLOWED_CHARS_test s \<longleftrightarrow> all_allowed s"
  by (simp add: ALLOWED_CHARS_test_def all_allowed_def list_all_iff)

lemma find_rules:
  "find (\<lambda>(r, ok). \<not> ok) [(r1, b1), (r2, b2), (r3, b3), (r4, b4), (r5, b5), (r6, b6), (r7, b7)]
   = (if \<not> b1 then Some (r1, b1) else if \<not> b2 then Some (r2, b2) else if \<not> b3 then Some (r3, b3)
      else if \<not> b4 then Some (r4, b4) else if \<not> b5 then Some (r5, b5)
      else if \<not> b6 then Some (r6, b6) else if \<not> b7 then Some (r7, b7) else None)"
  by simp

lemma validate_by_rules_string:
  "validate_by_rules nonempty_string (JStr s) =
     (if s = [] then invalid ''Please enter a task description''
      else if \<not> 1 \<le> length (trim s) then invalid ''Task description cannot be empty''
      else if \<not> length (trim s) \<le> 200 then invalid ''Task description cannot exceed 200 characters''
      else if \<not> all_allowed (trim s) then invalid ''Task description contains invalid characters''
      else if forbidden_word_in (trim s) then invalid ''Task description contains forbidden content''
      else if whitespace_run_in (trim s) then invalid ''Task description contains excessive whitespace''
      else if identical_run_in (trim s)
      then invalid ''Task description contains too many repeated characters''
      else \<lparr>isValid = True, message = '''', sanitizedText = Some (trim s)\<rparr>)"
  unfolding validate_by_rules_def rules_def Let_def find_rules
  by (simp add: nonempty_string_def)

lemma validateTaskText_string:
  "validateTaskText (JStr s) =
     (if s = [] then invalid ''Please enter a task description''
      else if \<not> 1 \<le> length (trim s) then invalid ''Task description cannot be empty''
      else if \<not> length (trim s) \<le> 200 then invalid ''Task description cannot exceed 200 characters''
      else if \<not> ALLOWED_CHARS_test (trim s) then invalid ''Task description contains invalid characters''
      else if list_ex (string_includes (toLowerCase (trim s))) FORBIDDEN_WORDS
      then invalid ''Task description contains forbidden content''
      else if whitespace_run_test (trim s) then invalid ''Task description contains excessive whitespace''
      else if repeated_char_test (trim s)
      then invalid ''Task description contains too many repeated characters''
      else \<lparr>isValid = True, message = '''', sanitizedText = Some (trim s)\<rparr>)"
  by (simp add: validateTaskText_def Let_def MIN_LENGTH_def MAX_LENGTH_def not_less not_le)

text \<open>
  C6, amended. For every input, \<open>validateTaskText\<close> returns what the rules give in this
  order, first failure winning: (1) the input is a string that is not empty (before
  trimming), else 'required'; (2) the trimmed length is at least 1, else 'too short' (the
  input of white space only), and at most 200, else 'too long'; (3) every character is of
  the allow-set, else 'invalid characters'; (4) no forbidden word is a substring, case
  ignored, else 'forbidden content'; (5) no three consecutive white-space characters, else
  'excessive whitespace'; (6) no five consecutive identical characters, else 'repetitive
  characters'; and with no failure, the trimmed text as cleaned.
\<close>

theorem validateTaskText_rules: "validateTaskText input = validate_by_rules nonempty_string input"
proof (cases "typeof input = ''string''")
  case True
  then obtain s where s: "input = JStr s" by (cases input) simp_all
  show ?thesis
  proof (cases "1 \<le> length (trim s)")
    case True
    then have "trim s \<noteq> []" by auto
    then have a: "ALLOWED_CHARS_test (trim s) \<longleftrightarrow> all_allowed (trim s)" by (rule allowed_iff)
    show ?thesis
      unfolding s validate_by_rules_string validateTaskText_string
      using identical_run_plain [of "trim s"]
      by (simp add: a forbidden_iff whitespace_run_test_iff repeated_char_test_iff)
  next
    case False
    then show ?thesis
      unfolding s validate_by_rules_string validateTaskText_string by simp
  qed
next
  case False
  then have "validate_by_rules nonempty_string input = invalid ''Please enter a task description''"
    by (simp add: validate_by_rules_def rules_def Let_def nonempty_string_def)
  moreover from False have "validateTaskText input = invalid ''Please enter a task description''"
    by (simp add: validateTaskText_def)
  ultimately show ?thesis by simp
qed

section \<open>More properties at sample data\<close>

text \<open>C6 at an accepted text, a run of white space, white space only, and a number.\<close>

theorem validateTaskText_rules_witness:
  "validate_by_rules nonempty_string (JStr '' Buy milk '')
     = \<lparr>isValid = True, message = '''', sanitizedText = Some ''Buy milk''\<rparr>
   \<and> validate_by_rules nonempty_string (JStr ''a   b'')
     = invalid ''Task description contains excessive whitespace''
   \<and> validate_by_rules nonempty_string (JStr ''   '') = invalid ''Task description cannot be empty''
   \<and> validate_by_rules nonempty_string (JNum (Fin 5)) = invalid ''Please enter a task description''"
proof -
  have "validateTaskText (JStr '' Buy milk '')
     = \<lparr>isValid = True, message = '''', sanitizedText = Some ''Buy milk''\<rparr>"
    by code_simp
  moreover have "validateTaskText (JStr ''a   b'')
     = invalid ''Task description contains excessive whitespace''"
    by code_simp
  moreover have "validateTaskText (JStr ''   '') = invalid ''Task description cannot be empty''"
    by code_simp
  moreover have "validateTaskText (JNum (Fin 5)) = invalid ''Please enter a task description''"
    by code_simp
  ultimately show ?thesis
    using validateTaskText_rules [of "JStr '' Buy milk ''"] validateTaskText_rules [of "JStr ''a   b''"]
      validateTaskText_rules [of "JStr ''   ''"] validateTaskText_rules [of "JNum (Fin 5)"]
    by simp
qed

text \<open>
  C6 as stated fails on an input of white space only: with rule 1 read as "not empty
  after trimming" the reason would be 'required'; the code answers with the message of
  the minimum-length rule.
\<close>

theorem validateTaskText_whitespace_only_counterexample:
  "validateTaskText (JStr ''   '') = invalid (reason_message TooShort)
   \<and> validate_by_rules nonempty_after_trim (JStr ''   '') = invalid (reason_message Required)"
proof -
  have "validateTaskText (JStr ''   '') = invalid (reason_message TooShort)"
    by code_simp
  moreover have "trim ''   '' = []"
    by code_simp
  then have "validate_by_rules nonempty_after_trim (JStr ''   '') = invalid (reason_message Required)"
    by (simp add: validate_by_rules_def rules_def nonempty_after_trim_def)
  ultimately show ?thesis by simp
qed


text \<open>C2 at a storage that holds one valid task, followed by an add and a toggle.\<close>

theorem texts_stay_valid_witness:
  "texts_valid (fst (loadTasks stored_valid))
   \<and> texts_valid (tasks (run stored_valid
        [AddTask (adds_at 1714557600000) (JStr ''Walk the dog''),
         ToggleTaskCompletion writes_stored (Fin 1)]))
   \<and> texts_valid (fst (loadTasks (localStorage (run stored_valid
        [AddTask (adds_at 1714557600000) (JStr ''Walk the dog''),
         ToggleTaskCompletion writes_stored (Fin 1)]))))
   \<and> returned (fst (addTask (adds_at 1714557600000) (JStr ''Walk the dog'') (init stored_valid)))
   \<and> valid_text (task_text (hd (tasks (snd
         (addTask (adds_at 1714557600000) (JStr ''Walk the dog'') (init stored_valid))))))"
proof -
  have 1: "texts_valid (fst (loadTasks stored_valid))"
    by code_simp
  have 2: "returned (fst (addTask (adds_at 1714557600000) (JStr ''Walk the dog'') (init stored_valid)))"
    by code_simp
  from 1 2 texts_stay_valid [of stored_valid
      "[AddTask (adds_at 1714557600000) (JStr ''Walk the dog''), ToggleTaskCompletion writes_stored (Fin 1)]"
      "adds_at 1714557600000" "JStr ''Walk the dog''" "init stored_valid"]
  show ?thesis by simp
qed

text \<open>
  C2 as stated fails: \<open>loadTasks\<close> tests that \<^verbatim>\<open>text\<close> is a string, not that the validator
  accepts it. A stored task with the text 'run script' is loaded, and after a toggle the
  application itself writes it back.
\<close>

theorem loaded_text_invalid_counterexample:
  "\<not> texts_valid (tasks (run stored_invalid [ToggleTaskCompletion writes_stored (Fin 1)]))
   \<and> \<not> texts_valid (fst (loadTasks (localStorage
          (run stored_invalid [ToggleTaskCompletion writes_stored (Fin 1)]))))"
  by code_simp

end
